theory Spec2Isabelle
  imports Main "HOL-Library.AList" "HOL-Library.Sublist" "HOL-Library.Product_Lexorder"
begin

section \<open>System File Sync: the comparison-and-sync engine of \<^verbatim>\<open>system_sync.py\<close>\<close>

text \<open>
  The engine of \<^verbatim>\<open>SystemSyncUI\<close> is embedded as pure functions over an explicit
  filesystem value. Every exception of the Python code is a value of type \<open>exn\<close>, a
  \<^verbatim>\<open>try ... except Exception\<close> block is the combinator \<open>try_except\<close>, and a method that
  changes the filesystem returns the new filesystem.
\<close>

subsection \<open>Paths, bytes and exceptions\<close>

text \<open>
  A \<^verbatim>\<open>pathlib.Path\<close> is the list of its components below the filesystem root; bytes
  and text are both lists of 8-bit characters (a Python \<^verbatim>\<open>str\<close> is held as its UTF-8
  encoding).
\<close>

type_synonym path = "string list"

definition str_path :: "path \<Rightarrow> string" where
  "str_path p = (if p = [] then ''/'' else concat (map (\<lambda>c. ''/'' @ c) p))"

fun join_rel :: "path \<Rightarrow> string" where
  "join_rel [] = ''.''"
| "join_rel [c] = c"
| "join_rel (c # cs) = c @ ''/'' @ join_rel cs"

definition name :: "path \<Rightarrow> string" where
  "name p = (if p = [] then [] else last p)"

definition parent :: "path \<Rightarrow> path" where
  "parent p = butlast p"

datatype errno = ENOENT | ENOTDIR | EISDIR | EACCES | EEXIST

datatype exn =
    OSError errno path
  | SameFileError path path
  | ValueError path path
  | IndexError

fun strerror :: "errno \<Rightarrow> string" where
  "strerror ENOENT = ''[Errno 2] No such file or directory''"
| "strerror ENOTDIR = ''[Errno 20] Not a directory''"
| "strerror EISDIR = ''[Errno 21] Is a directory''"
| "strerror EACCES = ''[Errno 13] Permission denied''"
| "strerror EEXIST = ''[Errno 17] File exists''"

definition quoted :: "string \<Rightarrow> string" where
  "quoted x = [CHR 0x27] @ x @ [CHR 0x27]"

text \<open>\<^verbatim>\<open>str(e)\<close>, as CPython 3.11 words it.\<close>

fun str_exn :: "exn \<Rightarrow> string" where
  "str_exn (OSError e p) = strerror e @ '': '' @ quoted (str_path p)"
| "str_exn (SameFileError p q) =
     ''PosixPath('' @ quoted (str_path p) @ '') and PosixPath('' @ quoted (str_path q)
       @ '') are the same file''"
| "str_exn (ValueError p q) =
     quoted (str_path p) @ '' is not in the subpath of '' @ quoted (str_path q)
       @ '' OR one path is relative and the other is absolute.''"
| "str_exn IndexError = ''list index out of range''"

definition try_except :: "exn + 'a \<Rightarrow> (exn \<Rightarrow> 'a) \<Rightarrow> 'a" where
  "try_except body handler = (case body of Inl e \<Rightarrow> handler e | Inr v \<Rightarrow> v)"

subsection \<open>The filesystem\<close>

text \<open>
  The filesystem is a tree. A regular file carries whether the process may read it,
  whether it may write it, its modification time and its content; a directory carries
  whether the process may create entries in it, and its entries in the order
  \<^verbatim>\<open>os.scandir\<close> lists them. Symbolic links and special files are outside the model,
  and listing or passing through a directory always succeeds. The names in a directory
  are meant to be distinct; a lookup takes the first entry of a name.
\<close>

datatype node =
    File bool bool nat string
  | Dir bool "(string \<times> node) list"

fun is_dir :: "node \<Rightarrow> bool" where
  "is_dir (Dir w es) = True"
| "is_dir (File r w t c) = False"

fun stat :: "node \<Rightarrow> path \<Rightarrow> errno + node" where
  "stat n [] = Inr n"
| "stat (File r w t c) (x # xs) = Inl ENOTDIR"
| "stat (Dir w es) (x # xs) =
     (case map_of es x of None \<Rightarrow> Inl ENOENT | Some ch \<Rightarrow> stat ch xs)"

text \<open>\<^verbatim>\<open>Path.exists()\<close>: the path resolves.\<close>

definition exists :: "node \<Rightarrow> path \<Rightarrow> bool" where
  "exists fs p = (case stat fs p of Inl e \<Rightarrow> False | Inr n \<Rightarrow> True)"

text \<open>\<^verbatim>\<open>open(p, "rb")\<close> followed by reading the file to its end.\<close>

definition read_bytes :: "node \<Rightarrow> path \<Rightarrow> exn + string" where
  "read_bytes fs p =
     (case stat fs p of
        Inl e \<Rightarrow> Inl (OSError e p)
      | Inr (Dir w es) \<Rightarrow> Inl (OSError EISDIR p)
      | Inr (File r w t c) \<Rightarrow> if r then Inr c else Inl (OSError EACCES p))"

subsection \<open>Hasher and Comparator\<close>

text \<open>
  \<^verbatim>\<open>file_hash\<close>: the digest function of \<^verbatim>\<open>hashlib\<close> is the parameter \<open>md5\<close>. The body
  of the \<^verbatim>\<open>try\<close> opens and reads the file; the handler \<^verbatim>\<open>except Exception: return None\<close>
  turns every exception into the value \<open>None\<close>.
\<close>

definition file_hash :: "(string \<Rightarrow> string) \<Rightarrow> node \<Rightarrow> path \<Rightarrow> exn + string option" where
  "file_hash md5 fs filepath =
     Inr (try_except
            (case read_bytes fs filepath of Inl e \<Rightarrow> Inl e | Inr c \<Rightarrow> Inr (Some (md5 c)))
            (\<lambda>e. None))"

text \<open>
  \<^verbatim>\<open>compare_files\<close>: the statuses are the strings of the source. The two calls of
  \<^verbatim>\<open>file_hash\<close> stand inside a \<^verbatim>\<open>try\<close> whose handler returns \<^verbatim>\<open>"error: ..."\<close>.
\<close>

definition compare_files :: "(string \<Rightarrow> string) \<Rightarrow> node \<Rightarrow> path \<Rightarrow> path \<Rightarrow> string" where
  "compare_files md5 fs src_file dest_file =
     (if \<not> exists fs dest_file then ''new''
      else try_except
             (case file_hash md5 fs src_file of
                Inl e \<Rightarrow> Inl e
              | Inr src_hash \<Rightarrow>
                  (case file_hash md5 fs dest_file of
                     Inl e \<Rightarrow> Inl e
                   | Inr dest_hash \<Rightarrow>
                       Inr (if src_hash = dest_hash then ''identical'' else ''modified'')))
             (\<lambda>e. ''error: '' @ str_exn e))"

subsection \<open>Scanner\<close>

record file_info =
  src :: path
  dest :: path
  rel_path :: string
  status :: string
  selected :: bool

record ui =
  system_path :: path
  root_path :: path
  files_to_sync :: "file_info list"
  selected_index :: int
  scroll_offset :: int
  max_visible_items :: int
  state :: string
  diff_lines :: "string list"
  diff_scroll :: int
  running :: bool

text \<open>
  \<^verbatim>\<open>os.walk(top)\<close>, top-down: one triple per directory, holding the directory, the names
  of its sub-directories and the names of its other entries, followed by the walks of the
  sub-directories in order. A top that is not a directory yields nothing (the error of
  \<^verbatim>\<open>scandir\<close> is ignored).
\<close>

fun walk :: "path \<Rightarrow> node \<Rightarrow> (path \<times> string list \<times> string list) list"
  and walk_entries :: "path \<Rightarrow> (string \<times> node) list \<Rightarrow> (path \<times> string list \<times> string list) list"
where
  "walk dirpath (File r w t c) = []"
| "walk dirpath (Dir w es) =
     (dirpath, map fst (filter (\<lambda>e. is_dir (snd e)) es), map fst (filter (\<lambda>e. \<not> is_dir (snd e)) es))
       # walk_entries dirpath es"
| "walk_entries dirpath [] = []"
| "walk_entries dirpath (e # es) =
     (if is_dir (snd e) then walk (dirpath @ [fst e]) (snd e) else []) @ walk_entries dirpath es"

definition os_walk :: "node \<Rightarrow> path \<Rightarrow> (path \<times> string list \<times> string list) list" where
  "os_walk fs dirpath = (case stat fs dirpath of Inl e \<Rightarrow> [] | Inr n \<Rightarrow> walk dirpath n)"

text \<open>\<^verbatim>\<open>Path.relative_to\<close> raises \<^verbatim>\<open>ValueError\<close> when the base is not a prefix.\<close>

definition relative_to :: "path \<Rightarrow> path \<Rightarrow> exn + path" where
  "relative_to p base =
     (if prefix base p then Inr (drop (length base) p) else Inl (ValueError p base))"

text \<open>The body of the inner loop of \<^verbatim>\<open>check_system_folder\<close>, for one file name.\<close>

definition scan_file ::
  "(string \<Rightarrow> string) \<Rightarrow> node \<Rightarrow> ui \<Rightarrow> path \<Rightarrow> string \<Rightarrow> file_info list \<Rightarrow> exn + file_info list" where
  "scan_file md5 fs self root filename acc =
     (let src_file = root @ [filename] in
      case relative_to src_file (system_path self) of
        Inl e \<Rightarrow> Inl e
      | Inr rel \<Rightarrow>
          (let dest_file = root_path self @ rel;
               st = compare_files md5 fs src_file dest_file
           in if st \<noteq> ''identical''
              then Inr (acc @ [\<lparr>src = src_file, dest = dest_file, rel_path = join_rel rel,
                                 status = st, selected = True\<rparr>])
              else Inr acc))"

fun scan_files ::
  "(string \<Rightarrow> string) \<Rightarrow> node \<Rightarrow> ui \<Rightarrow> path \<Rightarrow> string list \<Rightarrow> file_info list \<Rightarrow> exn + file_info list" where
  "scan_files md5 fs self root [] acc = Inr acc"
| "scan_files md5 fs self root (filename # files) acc =
     (case scan_file md5 fs self root filename acc of
        Inl e \<Rightarrow> Inl e
      | Inr acc' \<Rightarrow> scan_files md5 fs self root files acc')"

fun scan_dirs ::
  "(string \<Rightarrow> string) \<Rightarrow> node \<Rightarrow> ui \<Rightarrow> (path \<times> string list \<times> string list) list \<Rightarrow> file_info list
     \<Rightarrow> exn + file_info list" where
  "scan_dirs md5 fs self [] acc = Inr acc"
| "scan_dirs md5 fs self ((root, dirs, files) # rest) acc =
     (case scan_files md5 fs self root files acc of
        Inl e \<Rightarrow> Inl e
      | Inr acc' \<Rightarrow> scan_dirs md5 fs self rest acc')"

text \<open>
  \<^verbatim>\<open>check_system_folder\<close> returns \<^verbatim>\<open>False\<close> when the System folder does not exist, and
  otherwise rebuilds \<^verbatim>\<open>self.files_to_sync\<close> and returns \<^verbatim>\<open>True\<close>.
\<close>

definition check_system_folder :: "(string \<Rightarrow> string) \<Rightarrow> node \<Rightarrow> ui \<Rightarrow> exn + (bool \<times> ui)" where
  "check_system_folder md5 fs self =
     (if \<not> exists fs (system_path self) then Inr (False, self)
      else case scan_dirs md5 fs self (os_walk fs (system_path self)) [] of
             Inl e \<Rightarrow> Inl e
           | Inr found \<Rightarrow> Inr (True, self\<lparr>files_to_sync := found\<rparr>))"

subsection \<open>SyncExecutor\<close>

text \<open>
  \<^verbatim>\<open>Path.mkdir(parents=True, exist_ok=True)\<close>: every missing directory of the chain is
  created (writable, empty), which needs a writable directory above it; an existing
  directory is accepted; a regular file on the way is an error.
\<close>

fun mkdir_parents :: "node \<Rightarrow> path \<Rightarrow> errno + node" where
  "mkdir_parents (Dir w es) [] = Inr (Dir w es)"
| "mkdir_parents (File r w t c) [] = Inl EEXIST"
| "mkdir_parents (File r w t c) (x # xs) = Inl ENOTDIR"
| "mkdir_parents (Dir w es) (x # xs) =
     (case map_of es x of
        Some ch \<Rightarrow>
          (case mkdir_parents ch xs of
             Inl e \<Rightarrow> Inl e
           | Inr ch' \<Rightarrow> Inr (Dir w (AList.update x ch' es)))
      | None \<Rightarrow>
          if w then (case mkdir_parents (Dir True []) xs of
                       Inl e \<Rightarrow> Inl e
                     | Inr ch' \<Rightarrow> Inr (Dir w (es @ [(x, ch')])))
          else Inl EACCES)"

text \<open>
  \<^verbatim>\<open>open(p, "wb")\<close>, writing the content and \<^verbatim>\<open>copystat\<close>, as one step: the node \<open>new\<close>
  replaces a writable regular file at \<open>p\<close>, or is created in a writable directory.
\<close>

fun write_file :: "node \<Rightarrow> path \<Rightarrow> node \<Rightarrow> errno + node" where
  "write_file n [] new = Inl EISDIR"
| "write_file (File r w t c) (x # xs) new = Inl ENOTDIR"
| "write_file (Dir w es) [x] new =
     (case map_of es x of
        None \<Rightarrow> if w then Inr (Dir w (es @ [(x, new)])) else Inl EACCES
      | Some (Dir w' es') \<Rightarrow> Inl EISDIR
      | Some (File r' w' t' c') \<Rightarrow>
          if w' then Inr (Dir w (AList.update x new es)) else Inl EACCES)"
| "write_file (Dir w es) (x # y # ys) new =
     (case map_of es x of
        None \<Rightarrow> Inl ENOENT
      | Some ch \<Rightarrow>
          (case write_file ch (y # ys) new of
             Inl e \<Rightarrow> Inl e
           | Inr ch' \<Rightarrow> Inr (Dir w (AList.update x ch' es))))"

definition isdir :: "node \<Rightarrow> path \<Rightarrow> bool" where
  "isdir fs p = (case stat fs p of Inl e \<Rightarrow> False | Inr n \<Rightarrow> is_dir n)"

text \<open>
  \<^verbatim>\<open>shutil.copy2(src, dst)\<close>: a destination that is a directory stands for the file of
  the source's name inside it; copying a file onto itself raises \<^verbatim>\<open>SameFileError\<close>; the
  source is opened for reading, then the destination for writing; the destination
  receives the content and the metadata (permission bits, modification time) of the
  source.
\<close>

definition copy2 :: "node \<Rightarrow> path \<Rightarrow> path \<Rightarrow> exn + node" where
  "copy2 fs src_file dst =
     (let dst' = (if isdir fs dst then dst @ [name src_file] else dst) in
      if src_file = dst' \<and> exists fs src_file then Inl (SameFileError src_file dst')
      else case stat fs src_file of
             Inl e \<Rightarrow> Inl (OSError e src_file)
           | Inr (Dir w es) \<Rightarrow> Inl (OSError EISDIR src_file)
           | Inr (File r w t c) \<Rightarrow>
               if \<not> r then Inl (OSError EACCES src_file)
               else (case write_file fs dst' (File r w t c) of
                       Inl e \<Rightarrow> Inl (OSError e dst')
                     | Inr fs' \<Rightarrow> Inr fs'))"

text \<open>
  \<^verbatim>\<open>sync_file\<close>: both steps stand in a \<^verbatim>\<open>try\<close> whose handler prints the exception and
  returns \<^verbatim>\<open>False\<close> (standard output is not part of the model). The filesystem is
  returned as the failing step left it.
\<close>

definition sync_file :: "node \<Rightarrow> file_info \<Rightarrow> bool \<times> node" where
  "sync_file fs info =
     (case mkdir_parents fs (parent (dest info)) of
        Inl e \<Rightarrow> (False, fs)
      | Inr fs1 \<Rightarrow>
          (case copy2 fs1 (src info) (dest info) of
             Inl e \<Rightarrow> (False, fs1)
           | Inr fs2 \<Rightarrow> (True, fs2)))"

text \<open>The loop of \<^verbatim>\<open>sync_selected_files\<close> with its two counters.\<close>

fun sync_loop :: "node \<Rightarrow> file_info list \<Rightarrow> nat \<Rightarrow> nat \<Rightarrow> (nat \<times> nat) \<times> node" where
  "sync_loop fs [] success_count fail_count = ((success_count, fail_count), fs)"
| "sync_loop fs (info # rest) success_count fail_count =
     (if selected info
      then (case sync_file fs info of
              (True, fs') \<Rightarrow> sync_loop fs' rest (success_count + 1) fail_count
            | (False, fs') \<Rightarrow> sync_loop fs' rest success_count (fail_count + 1))
      else sync_loop fs rest success_count fail_count)"

text \<open>
  \<^verbatim>\<open>sync_selected_files\<close> returns the pair of counters; the model returns with it the
  object \<^verbatim>\<open>self\<close> and the filesystem as the call leaves them.
\<close>

definition sync_selected_files :: "ui \<Rightarrow> node \<Rightarrow> (nat \<times> nat) \<times> ui \<times> node" where
  "sync_selected_files self fs =
     (case sync_loop fs (files_to_sync self) 0 0 of (counts, fs') \<Rightarrow> (counts, self, fs'))"

subsection \<open>Reading text\<close>

text \<open>
  \<^verbatim>\<open>open(p, "r", encoding="utf-8", errors="ignore")\<close> decodes the bytes as UTF-8 and drops
  every byte that is not part of a well-formed sequence: an ill-formed sequence is
  dropped up to the first byte that cannot continue it, and decoding resumes at that
  byte. The decoded text is held as its UTF-8 encoding, so decoding keeps the well-formed
  sequences as they are.
\<close>

definition byte :: "char \<Rightarrow> nat" where
  "byte c = of_char c"

definition is_cont :: "char \<Rightarrow> bool" where
  "is_cont c = (0x80 \<le> byte c \<and> byte c \<le> 0xBF)"

text \<open>The second byte of a three-byte and of a four-byte sequence, by its lead byte.\<close>

definition second3 :: "nat \<Rightarrow> char \<Rightarrow> bool" where
  "second3 lead c =
     (if lead = 0xE0 then 0xA0 \<le> byte c \<and> byte c \<le> 0xBF
      else if lead = 0xED then 0x80 \<le> byte c \<and> byte c \<le> 0x9F
      else is_cont c)"

definition second4 :: "nat \<Rightarrow> char \<Rightarrow> bool" where
  "second4 lead c =
     (if lead = 0xF0 then 0x90 \<le> byte c \<and> byte c \<le> 0xBF
      else if lead = 0xF4 then 0x80 \<le> byte c \<and> byte c \<le> 0x8F
      else is_cont c)"

fun utf8_ignore :: "string \<Rightarrow> string" where
  "utf8_ignore [] = []"
| "utf8_ignore (b # bs) =
     (if byte b < 0x80 then b # utf8_ignore bs
      else if 0xC2 \<le> byte b \<and> byte b \<le> 0xDF then
        (case bs of
           [] \<Rightarrow> []
         | c1 # r1 \<Rightarrow> if is_cont c1 then b # c1 # utf8_ignore r1 else utf8_ignore bs)
      else if 0xE0 \<le> byte b \<and> byte b \<le> 0xEF then
        (case bs of
           [] \<Rightarrow> []
         | c1 # r1 \<Rightarrow>
             if second3 (byte b) c1 then
               (case r1 of
                  [] \<Rightarrow> []
                | c2 # r2 \<Rightarrow> if is_cont c2 then b # c1 # c2 # utf8_ignore r2 else utf8_ignore r1)
             else utf8_ignore bs)
      else if 0xF0 \<le> byte b \<and> byte b \<le> 0xF4 then
        (case bs of
           [] \<Rightarrow> []
         | c1 # r1 \<Rightarrow>
             if second4 (byte b) c1 then
               (case r1 of
                  [] \<Rightarrow> []
                | c2 # r2 \<Rightarrow>
                    if is_cont c2 then
                      (case r2 of
                         [] \<Rightarrow> []
                       | c3 # r3 \<Rightarrow>
                           if is_cont c3 then b # c1 # c2 # c3 # utf8_ignore r3
                           else utf8_ignore r2)
                    else utf8_ignore r1)
             else utf8_ignore bs)
      else utf8_ignore bs)"

text \<open>
  Text mode reads with universal newlines: \<^verbatim>\<open>\r\n\<close> and a lone \<^verbatim>\<open>\r\<close> both become
  \<^verbatim>\<open>\n\<close>. \<^verbatim>\<open>readlines\<close> cuts the text after every \<^verbatim>\<open>\n\<close>.
\<close>

fun universal_newlines :: "string \<Rightarrow> string" where
  "universal_newlines [] = []"
| "universal_newlines (c # cs) =
     (if c = CHR 0x0D then
        (case cs of
           [] \<Rightarrow> [CHR 0x0A]
         | d # ds \<Rightarrow> if d = CHR 0x0A then CHR 0x0A # universal_newlines ds
                     else CHR 0x0A # universal_newlines cs)
      else c # universal_newlines cs)"

fun split_lines :: "string \<Rightarrow> string \<Rightarrow> string list" where
  "split_lines cur [] = (if cur = [] then [] else [cur])"
| "split_lines cur (c # cs) =
     (if c = CHR 0x0A then (cur @ [c]) # split_lines [] cs else split_lines (cur @ [c]) cs)"

definition text_lines :: "string \<Rightarrow> string list" where
  "text_lines c = split_lines [] (universal_newlines (utf8_ignore c))"

definition readlines :: "node \<Rightarrow> path \<Rightarrow> exn + string list" where
  "readlines fs p =
     (case read_bytes fs p of
        Inl e \<Rightarrow> Inl e
      | Inr c \<Rightarrow> Inr (text_lines c))"

subsection \<open>The line matcher of \<^verbatim>\<open>difflib\<close>\<close>

text \<open>
  \<^verbatim>\<open>difflib.SequenceMatcher(None, a, b)\<close> on two lists of lines, without a junk
  predicate. \<open>b2j\<close> lists, in increasing order, the positions of a line in \<open>b\<close>; for a
  \<open>b\<close> of 200 lines or more the lines that occur more often than one percent plus one
  are left out of it.
\<close>

type_synonym match = "nat \<times> nat \<times> nat"

definition b2j :: "string list \<Rightarrow> string \<Rightarrow> nat list" where
  "b2j b elt =
     (let idxs = filter (\<lambda>j. b ! j = elt) [0..<length b]
      in if 200 \<le> length b \<and> length b div 100 + 1 < length idxs then [] else idxs)"

text \<open>
  \<^verbatim>\<open>find_longest_match\<close>: \<open>j2len\<close> is the dictionary of the source, an absent key
  reading 0 (every stored length is positive).
\<close>

fun inner_loop ::
  "nat \<Rightarrow> nat \<Rightarrow> nat \<Rightarrow> (nat \<Rightarrow> nat) \<Rightarrow> nat list \<Rightarrow> (nat \<Rightarrow> nat) \<times> match \<Rightarrow> (nat \<Rightarrow> nat) \<times> match" where
  "inner_loop i blo bhi j2len [] st = st"
| "inner_loop i blo bhi j2len (j # js) (newj2len, besti, bestj, bestsize) =
     (if j < blo then inner_loop i blo bhi j2len js (newj2len, besti, bestj, bestsize)
      else if bhi \<le> j then (newj2len, besti, bestj, bestsize)
      else (let k = (if j = 0 then 0 else j2len (j - 1)) + 1 in
            inner_loop i blo bhi j2len js
              (newj2len(j := k),
               if bestsize < k then (i + 1 - k, j + 1 - k, k) else (besti, bestj, bestsize))))"

fun outer_loop ::
  "string list \<Rightarrow> string list \<Rightarrow> nat \<Rightarrow> nat \<Rightarrow> nat list \<Rightarrow> (nat \<Rightarrow> nat) \<times> match \<Rightarrow> (nat \<Rightarrow> nat) \<times> match" where
  "outer_loop a b blo bhi [] st = st"
| "outer_loop a b blo bhi (i # rest) (j2len, best) =
     outer_loop a b blo bhi rest (inner_loop i blo bhi j2len (b2j b (a ! i)) (\<lambda>j. 0, best))"

function extend_left :: "string list \<Rightarrow> string list \<Rightarrow> nat \<Rightarrow> nat \<Rightarrow> match \<Rightarrow> match" where
  "extend_left a b alo blo (besti, bestj, bestsize) =
     (if alo < besti \<and> blo < bestj \<and> a ! (besti - 1) = b ! (bestj - 1)
      then extend_left a b alo blo (besti - 1, bestj - 1, bestsize + 1)
      else (besti, bestj, bestsize))"
  by pat_completeness auto
termination
  by (relation "measure (\<lambda>(a, b, alo, blo, besti, bestj, bestsize). besti)") auto

function extend_right :: "string list \<Rightarrow> string list \<Rightarrow> nat \<Rightarrow> nat \<Rightarrow> match \<Rightarrow> match" where
  "extend_right a b ahi bhi (besti, bestj, bestsize) =
     (if besti + bestsize < ahi \<and> bestj + bestsize < bhi
         \<and> a ! (besti + bestsize) = b ! (bestj + bestsize)
      then extend_right a b ahi bhi (besti, bestj, bestsize + 1)
      else (besti, bestj, bestsize))"
  by pat_completeness auto
termination
  by (relation "measure (\<lambda>(a, b, ahi, bhi, besti, bestj, bestsize). ahi - (besti + bestsize))") auto

text \<open>
  The two further loops of the source extend the match by junk lines; without a junk
  predicate the junk set is empty and they do nothing.
\<close>

definition find_longest_match ::
  "string list \<Rightarrow> string list \<Rightarrow> nat \<Rightarrow> nat \<Rightarrow> nat \<Rightarrow> nat \<Rightarrow> match" where
  "find_longest_match a b alo ahi blo bhi =
     extend_right a b ahi bhi
       (extend_left a b alo blo
          (snd (outer_loop a b blo bhi [alo..<ahi] (\<lambda>j. 0, (alo, blo, 0)))))"

text \<open>
  What \<^verbatim>\<open>find_longest_match\<close> promises: its result is empty and sits at the lower
  corner of the window, or it is a block of equal lines inside the window.
\<close>

definition good_match :: "string list \<Rightarrow> string list \<Rightarrow> nat \<Rightarrow> nat \<Rightarrow> nat \<Rightarrow> nat \<Rightarrow> match \<Rightarrow> bool" where
  "good_match a b alo ahi blo bhi m =
     (case m of (i, j, k) \<Rightarrow>
        if k = 0 then i = alo \<and> j = blo
        else alo \<le> i \<and> i + k \<le> ahi \<and> blo \<le> j \<and> j + k \<le> bhi
             \<and> (\<forall>t<k. a ! (i + t) = b ! (j + t)))"

text \<open>
  The invariant of \<open>j2len\<close> before line \<open>i\<close> of \<open>a\<close> is processed: a stored length
  is the length of a run of equal lines ending at \<open>a[i-1]\<close> and \<open>b[j]\<close>, inside the window.
\<close>

definition good_j2len :: "string list \<Rightarrow> string list \<Rightarrow> nat \<Rightarrow> nat \<Rightarrow> nat \<Rightarrow> (nat \<Rightarrow> nat) \<Rightarrow> bool" where
  "good_j2len a b alo blo i j2len =
     (\<forall>j. j2len j \<noteq> 0 \<longrightarrow>
        j2len j + alo \<le> i \<and> j2len j + blo \<le> j + 1
        \<and> (\<forall>t<j2len j. a ! (i - 1 - t) = b ! (j - t)))"

lemma b2j_sound: "j \<in> set (b2j b x) \<Longrightarrow> b ! j = x"
  by (auto simp: b2j_def Let_def split: if_splits)

lemma inner_loop_inv:
  assumes "good_j2len a b alo blo i j2len"
    and "\<forall>j\<in>set js. b ! j = a ! i"
    and "alo \<le> i" and "i < ahi"
    and "good_j2len a b alo blo (Suc i) newj2len"
    and "good_match a b alo ahi blo bhi best"
  shows "good_j2len a b alo blo (Suc i) (fst (inner_loop i blo bhi j2len js (newj2len, best)))
       \<and> good_match a b alo ahi blo bhi (snd (inner_loop i blo bhi j2len js (newj2len, best)))"
  using assms
proof (induction js arbitrary: newj2len best)
  case Nil
  then show ?case by simp
next
  case (Cons j js)
  obtain bi bj bk where best: "best = (bi, bj, bk)" by (cases best) auto
  show ?case
  proof (cases "j < blo")
    case True
    with Cons show ?thesis by (simp add: best)
  next
    case False
    note jlo = this
    show ?thesis
    proof (cases "bhi \<le> j")
      case True
      with jlo Cons.prems show ?thesis by (simp add: best)
    next
      case False
      define k where "k = (if j = 0 then 0 else j2len (j - 1)) + 1"
      define best' where "best' = (if bk < k then (i + 1 - k, j + 1 - k, k) else (bi, bj, bk))"
      have ij: "b ! j = a ! i" using Cons.prems(2) by simp
      have kpos: "0 < k" by (simp add: k_def)
      have prev: "k = 1 \<or> (j \<noteq> 0 \<and> j2len (j - 1) = k - 1 \<and> k - 1 \<noteq> 0)"
        by (auto simp: k_def)
      have kb: "k + alo \<le> Suc i \<and> k + blo \<le> j + 1 \<and> (\<forall>t<k. a ! (i - t) = b ! (j - t))"
      proof (cases "k = 1")
        case True
        then show ?thesis using \<open>alo \<le> i\<close> jlo ij by simp
      next
        case False
        with prev have p: "j \<noteq> 0" "j2len (j - 1) = k - 1" "k - 1 \<noteq> 0" by auto
        from Cons.prems(1) p have g: "k - 1 + alo \<le> i" "k - 1 + blo \<le> j - 1 + 1"
          "\<forall>t<k - 1. a ! (i - 1 - t) = b ! (j - 1 - t)"
          unfolding good_j2len_def by (metis)+
        have "a ! (i - t) = b ! (j - t)" if "t < k" for t
        proof (cases t)
          case 0
          then show ?thesis using ij by simp
        next
          case (Suc s)
          with that have "s < k - 1" by simp
          with g(3) have "a ! (i - 1 - s) = b ! (j - 1 - s)" by simp
          then show ?thesis using Suc by simp
        qed
        then show ?thesis using g p by auto
      qed
      have new: "good_j2len a b alo blo (Suc i) (newj2len(j := k))"
        using Cons.prems(5) kb unfolding good_j2len_def by (auto)
      have gb: "good_match a b alo ahi blo bhi best'"
      proof (cases "bk < k")
        case True
        have "a ! (i + 1 - k + t) = b ! (j + 1 - k + t)" if "t < k" for t
        proof -
          have "k - 1 - t < k" using that by simp
          with kb have "a ! (i - (k - 1 - t)) = b ! (j - (k - 1 - t))" by blast
          moreover have e1: "i - (k - 1 - t) = i + 1 - k + t" using that kb by arith
          moreover have e2: "j - (k - 1 - t) = j + 1 - k + t" using that kb by arith
          ultimately show ?thesis by (simp only:)
        qed
        then have m: "\<forall>t<k. a ! (i + 1 - k + t) = b ! (j + 1 - k + t)" by blast
        have bnd: "alo \<le> i + 1 - k \<and> i + 1 - k + k \<le> ahi \<and> blo \<le> j + 1 - k \<and> j + 1 - k + k \<le> bhi"
          using kb kpos \<open>i < ahi\<close> \<open>\<not> bhi \<le> j\<close> by arith
        have "best' = (i + 1 - k, j + 1 - k, k)" using True by (simp add: best'_def)
        then show ?thesis using m bnd kpos unfolding good_match_def by (simp only: prod.case) simp
      next
        case False
        then show ?thesis using Cons.prems(6) by (simp add: best'_def best)
      qed
      have step: "inner_loop i blo bhi j2len (j # js) (newj2len, best)
            = inner_loop i blo bhi j2len js (newj2len(j := k), best')"
        using jlo \<open>\<not> bhi \<le> j\<close> by (simp add: best k_def best'_def Let_def)
      have "\<forall>j\<in>set js. b ! j = a ! i" using Cons.prems(2) by simp
      from Cons.IH[OF Cons.prems(1) this Cons.prems(3,4) new gb]
      show ?thesis unfolding step .
    qed
  qed
qed


lemma good_j2len_empty: "good_j2len a b alo blo i (\<lambda>j. 0)"
  by (simp add: good_j2len_def)

lemma outer_loop_inv:
  assumes "rest = [i..<ahi]" and "alo \<le> i"
    and "good_j2len a b alo blo i j2len"
    and "good_match a b alo ahi blo bhi best"
  shows "good_match a b alo ahi blo bhi (snd (outer_loop a b blo bhi rest (j2len, best)))"
  using assms
proof (induction rest arbitrary: i j2len best)
  case Nil
  then show ?case by simp
next
  case (Cons x rest)
  from Cons.prems(1)[symmetric] have x: "x = i" "i < ahi" "rest = [Suc i..<ahi]"
    by (auto simp: upt_eq_Cons_conv)
  define st where "st = inner_loop i blo bhi j2len (b2j b (a ! i)) (\<lambda>j. 0, best)"
  have "\<forall>j\<in>set (b2j b (a ! i)). b ! j = a ! i" by (simp add: b2j_sound)
  from inner_loop_inv[OF Cons.prems(3) this Cons.prems(2) x(2) good_j2len_empty Cons.prems(4)]
  have g: "good_j2len a b alo blo (Suc i) (fst st)" "good_match a b alo ahi blo bhi (snd st)"
    by (simp_all add: st_def)
  have "outer_loop a b blo bhi (x # rest) (j2len, best)
        = outer_loop a b blo bhi rest (fst st, snd st)"
    by (simp add: x(1) st_def)
  moreover have "good_match a b alo ahi blo bhi (snd (outer_loop a b blo bhi rest (fst st, snd st)))"
    using Cons.IH[OF x(3) _ g] Cons.prems(2) by simp
  ultimately show ?case by simp
qed

declare extend_left.simps [simp del] extend_right.simps [simp del]

lemma extend_left_inv:
  "good_match a b alo ahi blo bhi m \<Longrightarrow> good_match a b alo ahi blo bhi (extend_left a b alo blo m)"
proof (induction a b alo blo m rule: extend_left.induct)
  case (1 a b alo blo besti bestj bestsize)
  show ?case
  proof (cases "alo < besti \<and> blo < bestj \<and> a ! (besti - 1) = b ! (bestj - 1)")
    case True
    have nz: "bestsize \<noteq> 0" using True "1.prems" by (auto simp: good_match_def split: if_splits)
    have "good_match a b alo ahi blo bhi (besti - 1, bestj - 1, bestsize + 1)"
    proof -
      have m: "a ! (besti - 1 + t) = b ! (bestj - 1 + t)" if "t < bestsize + 1" for t
      proof (cases t)
        case 0
        then show ?thesis using True by simp
      next
        case (Suc s)
        with that have "s < bestsize" by simp
        with "1.prems" nz have "a ! (besti + s) = b ! (bestj + s)" by (simp add: good_match_def)
        moreover have "besti - 1 + t = besti + s" "bestj - 1 + t = bestj + s"
          using Suc True by arith+
        ultimately show ?thesis by (simp only:)
      qed
      have "alo \<le> besti \<and> besti + bestsize \<le> ahi \<and> blo \<le> bestj \<and> bestj + bestsize \<le> bhi"
        using "1.prems" nz by (simp add: good_match_def)
      with True have bnd: "alo \<le> besti - 1 \<and> besti - 1 + (bestsize + 1) \<le> ahi \<and> blo \<le> bestj - 1
                 \<and> bestj - 1 + (bestsize + 1) \<le> bhi"
        by arith
      show ?thesis unfolding good_match_def using m bnd by (simp only: prod.case) simp
    qed
    with "1.IH"[OF True] True show ?thesis by (subst extend_left.simps) simp
  next
    case False
    with "1.prems" show ?thesis by (subst extend_left.simps) auto
  qed
qed

lemma extend_right_inv:
  "good_match a b alo ahi blo bhi m \<Longrightarrow> good_match a b alo ahi blo bhi (extend_right a b ahi bhi m)"
proof (induction a b ahi bhi m rule: extend_right.induct)
  case (1 a b ahi bhi besti bestj bestsize)
  show ?case
  proof (cases "besti + bestsize < ahi \<and> bestj + bestsize < bhi
         \<and> a ! (besti + bestsize) = b ! (bestj + bestsize)")
    case True
    have "good_match a b alo ahi blo bhi (besti, bestj, bestsize + 1)"
    proof -
      have m: "a ! (besti + t) = b ! (bestj + t)" if "t < bestsize + 1" for t
      proof (cases "t = bestsize")
        case True
        then show ?thesis using \<open>besti + bestsize < ahi \<and> bestj + bestsize < bhi
         \<and> a ! (besti + bestsize) = b ! (bestj + bestsize)\<close> by simp
      next
        case False
        with that have "t < bestsize" by simp
        with "1.prems" show ?thesis by (auto simp: good_match_def split: if_splits)
      qed
      have bnd: "alo \<le> besti \<and> besti + (bestsize + 1) \<le> ahi \<and> blo \<le> bestj
                 \<and> bestj + (bestsize + 1) \<le> bhi"
        using True "1.prems" by (auto simp: good_match_def split: if_splits)
      show ?thesis unfolding good_match_def using m bnd by (simp only: prod.case) simp
    qed
    with "1.IH"[OF True] True show ?thesis by (subst extend_right.simps) simp
  next
    case False
    with "1.prems" show ?thesis by (subst extend_right.simps) auto
  qed
qed

lemma find_longest_match_good:
  "good_match a b alo ahi blo bhi (find_longest_match a b alo ahi blo bhi)"
proof -
  have "good_match a b alo ahi blo bhi (alo, blo, 0)" by (simp add: good_match_def)
  from outer_loop_inv[OF refl le_refl good_j2len_empty this]
  show ?thesis unfolding find_longest_match_def
    by (intro extend_right_inv extend_left_inv)
qed

lemma find_longest_match_bounds:
  "find_longest_match a b alo ahi blo bhi = (i, j, k) \<Longrightarrow> k \<noteq> 0 \<Longrightarrow> alo \<le> i \<and> i + k \<le> ahi"
  using find_longest_match_good[of a b alo ahi blo bhi] by (simp add: good_match_def)

text \<open>
  \<^verbatim>\<open>get_matching_blocks\<close>: the work list of windows (the last appended window is popped
  first), the sort of the blocks found, the merging of adjacent blocks and the closing
  dummy block.
\<close>

function matching_loop ::
  "string list \<Rightarrow> string list \<Rightarrow> (nat \<times> nat \<times> nat \<times> nat) list \<Rightarrow> match list \<Rightarrow> match list" where
  "matching_loop a b [] blocks = blocks"
| "matching_loop a b ((alo, ahi, blo, bhi) # queue) blocks =
     (case find_longest_match a b alo ahi blo bhi of
        (i, j, k) \<Rightarrow>
          if k \<noteq> 0 then
            matching_loop a b
              ((if i + k < ahi \<and> j + k < bhi then [(i + k, ahi, j + k, bhi)] else [])
               @ (if alo < i \<and> blo < j then [(alo, i, blo, j)] else []) @ queue)
              (blocks @ [(i, j, k)])
          else matching_loop a b queue blocks)"
  by pat_completeness auto
termination
  by (relation "measure (\<lambda>(a, b, queue, blocks).
         sum_list (map (\<lambda>(alo, ahi, blo, bhi). 2 * (ahi - alo) + 1) queue))")
     (auto dest: find_longest_match_bounds find_longest_match_bounds[OF sym])

declare matching_loop.simps [simp del]

fun collapse :: "match \<Rightarrow> match list \<Rightarrow> match list" where
  "collapse (i1, j1, k1) [] = (if k1 \<noteq> 0 then [(i1, j1, k1)] else [])"
| "collapse (i1, j1, k1) ((i2, j2, k2) # rest) =
     (if i1 + k1 = i2 \<and> j1 + k1 = j2 then collapse (i1, j1, k1 + k2) rest
      else (if k1 \<noteq> 0 then [(i1, j1, k1)] else []) @ collapse (i2, j2, k2) rest)"

definition get_matching_blocks :: "string list \<Rightarrow> string list \<Rightarrow> match list" where
  "get_matching_blocks a b =
     collapse (0, 0, 0) (sort (matching_loop a b [(0, length a, 0, length b)] []))
       @ [(length a, length b, 0)]"

subsection \<open>Opcodes and the unified diff of \<^verbatim>\<open>difflib\<close>\<close>

datatype tag = Replace | Delete | Insert | Equal

type_synonym opcode = "tag \<times> nat \<times> nat \<times> nat \<times> nat"

fun opcodes_loop :: "nat \<Rightarrow> nat \<Rightarrow> match list \<Rightarrow> opcode list" where
  "opcodes_loop i j [] = []"
| "opcodes_loop i j ((ai, bj, sz) # rest) =
     (if i < ai \<and> j < bj then [(Replace, i, ai, j, bj)]
      else if i < ai then [(Delete, i, ai, j, bj)]
      else if j < bj then [(Insert, i, ai, j, bj)]
      else [])
     @ (if sz \<noteq> 0 then [(Equal, ai, ai + sz, bj, bj + sz)] else [])
     @ opcodes_loop (ai + sz) (bj + sz) rest"

definition get_opcodes :: "string list \<Rightarrow> string list \<Rightarrow> opcode list" where
  "get_opcodes a b = opcodes_loop 0 0 (get_matching_blocks a b)"

text \<open>
  \<^verbatim>\<open>get_grouped_opcodes(n)\<close>: an empty list of opcodes is replaced by one dummy, a leading
  and a trailing \<^verbatim>\<open>equal\<close> opcode are cut to \<open>n\<close> lines of context, and the loop closes a
  group at every \<^verbatim>\<open>equal\<close> opcode longer than \<open>2n\<close>. A last group that consists of one
  \<^verbatim>\<open>equal\<close> opcode is not yielded.
\<close>

definition fix_first :: "nat \<Rightarrow> opcode list \<Rightarrow> opcode list" where
  "fix_first n codes =
     (case codes of
        (Equal, i1, i2, j1, j2) # rest \<Rightarrow> (Equal, max i1 (i2 - n), i2, max j1 (j2 - n), j2) # rest
      | _ \<Rightarrow> codes)"

definition fix_last :: "nat \<Rightarrow> opcode list \<Rightarrow> opcode list" where
  "fix_last n codes =
     (if codes = [] then codes
      else case last codes of
             (Equal, i1, i2, j1, j2) \<Rightarrow>
               butlast codes @ [(Equal, i1, min i2 (i1 + n), j1, min j2 (j1 + n))]
           | _ \<Rightarrow> codes)"

fun group_loop :: "nat \<Rightarrow> opcode list \<Rightarrow> opcode list \<Rightarrow> opcode list list" where
  "group_loop n [] grp =
     (if grp \<noteq> [] \<and> \<not> (length grp = 1 \<and> fst (hd grp) = Equal) then [grp] else [])"
| "group_loop n ((tg, i1, i2, j1, j2) # codes) grp =
     (if tg = Equal \<and> n + n < i2 - i1
      then (grp @ [(tg, i1, min i2 (i1 + n), j1, min j2 (j1 + n))])
             # group_loop n codes [(tg, max i1 (i2 - n), i2, max j1 (j2 - n), j2)]
      else group_loop n codes (grp @ [(tg, i1, i2, j1, j2)]))"

definition get_grouped_opcodes :: "string list \<Rightarrow> string list \<Rightarrow> nat \<Rightarrow> opcode list list" where
  "get_grouped_opcodes a b n =
     (let codes = get_opcodes a b;
          codes = (if codes = [] then [(Equal, 0, 1, 0, 1)] else codes)
      in group_loop n (fix_last n (fix_first n codes)) [])"

fun show_nat :: "nat \<Rightarrow> string" where
  "show_nat n =
     (if n < 10 then [char_of (48 + n)] else show_nat (n div 10) @ [char_of (48 + n mod 10)])"

declare show_nat.simps [simp del]

definition format_range_unified :: "nat \<Rightarrow> nat \<Rightarrow> string" where
  "format_range_unified start stop =
     (let beginning = start + 1; len = stop - start
      in if len = 1 then show_nat beginning
         else show_nat (if len = 0 then beginning - 1 else beginning) @ '','' @ show_nat len)"

text \<open>The slice \<^verbatim>\<open>xs[i1:i2]\<close>.\<close>

definition slice :: "'a list \<Rightarrow> nat \<Rightarrow> nat \<Rightarrow> 'a list" where
  "slice xs i1 i2 = take (i2 - i1) (drop i1 xs)"

fun opcode_lines :: "string list \<Rightarrow> string list \<Rightarrow> opcode \<Rightarrow> string list" where
  "opcode_lines a b (Equal, i1, i2, j1, j2) = map (\<lambda>line. CHR '' '' # line) (slice a i1 i2)"
| "opcode_lines a b (Replace, i1, i2, j1, j2) =
     map (\<lambda>line. CHR ''-'' # line) (slice a i1 i2) @ map (\<lambda>line. CHR ''+'' # line) (slice b j1 j2)"
| "opcode_lines a b (Delete, i1, i2, j1, j2) = map (\<lambda>line. CHR ''-'' # line) (slice a i1 i2)"
| "opcode_lines a b (Insert, i1, i2, j1, j2) = map (\<lambda>line. CHR ''+'' # line) (slice b j1 j2)"

definition hunk :: "string list \<Rightarrow> string list \<Rightarrow> string \<Rightarrow> opcode list \<Rightarrow> string list" where
  "hunk a b lineterm grp =
     (case (hd grp, last grp) of
        ((tg1, f1, f2, f3, f4), (tg2, l1, l2, l3, l4)) \<Rightarrow>
          (''@@ -'' @ format_range_unified f1 l2 @ '' +'' @ format_range_unified f3 l4
             @ '' @@'' @ lineterm)
          # concat (map (opcode_lines a b) grp))"

text \<open>
  \<^verbatim>\<open>unified_diff(a, b, fromfile, tofile, lineterm=...)\<close> with three lines of context and no
  file dates: the two header lines come before the first group, so there is no output
  at all when there is no group.
\<close>

definition unified_diff ::
  "string list \<Rightarrow> string list \<Rightarrow> string \<Rightarrow> string \<Rightarrow> string \<Rightarrow> string list" where
  "unified_diff a b fromfile tofile lineterm =
     (let groups = get_grouped_opcodes a b 3
      in if groups = [] then []
         else (''--- '' @ fromfile @ lineterm) # (''+++ '' @ tofile @ lineterm)
                # concat (map (hunk a b lineterm) groups))"

subsection \<open>DiffGenerator\<close>

text \<open>
  \<^verbatim>\<open>get_file_diff\<close>: the whole body stands in a \<^verbatim>\<open>try\<close>; the source is opened and read
  before the destination, and the diff goes from the destination's lines to the source's.
\<close>

definition get_file_diff :: "node \<Rightarrow> path \<Rightarrow> path \<Rightarrow> string list" where
  "get_file_diff fs src_file dest_file =
     try_except
       (if \<not> exists fs dest_file then Inr [''New file: '' @ name src_file]
        else case readlines fs src_file of
               Inl e \<Rightarrow> Inl e
             | Inr src_lines \<Rightarrow>
                 (case readlines fs dest_file of
                    Inl e \<Rightarrow> Inl e
                  | Inr dest_lines \<Rightarrow>
                      Inr (unified_diff dest_lines src_lines
                             (str_path dest_file) (str_path src_file) [])))
       (\<lambda>e. [''Cannot generate diff: '' @ str_exn e])"

subsection \<open>SelectionModel: the key handling of \<^verbatim>\<open>handle_input\<close>\<close>

datatype key = K_ESCAPE | K_UP | K_DOWN | K_SPACE | K_d | K_RETURN | K_other

datatype event = QUIT | KEYDOWN key | OtherEvent

text \<open>
  Indexing a Python list: a negative index counts from the end, an index out of range
  raises \<^verbatim>\<open>IndexError\<close>.
\<close>

definition py_index :: "'a list \<Rightarrow> int \<Rightarrow> exn + nat" where
  "py_index xs i =
     (if 0 \<le> i \<and> i < int (length xs) then Inr (nat i)
      else if i < 0 \<and> - int (length xs) \<le> i then Inr (nat (int (length xs) + i))
      else Inl IndexError)"

text \<open>The \<^verbatim>\<open>K_SPACE\<close> branch: the \<^verbatim>\<open>selected\<close> flag of the current entry is negated.\<close>

definition toggle_selected :: "ui \<Rightarrow> exn + ui" where
  "toggle_selected self =
     (case py_index (files_to_sync self) (selected_index self) of
        Inl e \<Rightarrow> Inl e
      | Inr k \<Rightarrow>
          Inr (self\<lparr>files_to_sync :=
                 (files_to_sync self)
                   [k := (files_to_sync self ! k)
                           \<lparr>selected := \<not> selected (files_to_sync self ! k)\<rparr>]\<rparr>))"

text \<open>The \<^verbatim>\<open>K_d\<close> branch: the diff of the current entry is computed from its two paths.\<close>

definition view_diff :: "node \<Rightarrow> ui \<Rightarrow> exn + ui" where
  "view_diff fs self =
     (case py_index (files_to_sync self) (selected_index self) of
        Inl e \<Rightarrow> Inl e
      | Inr k \<Rightarrow>
          (let info = files_to_sync self ! k
           in Inr (self\<lparr>diff_lines := get_file_diff fs (src info) (dest info),
                        diff_scroll := 0, state := ''diff''\<rparr>)))"

definition handle_key :: "node \<Rightarrow> key \<Rightarrow> ui \<Rightarrow> exn + ui" where
  "handle_key fs k self =
     (if state self = ''scan'' then
        (if k = K_ESCAPE then Inr (self\<lparr>running := False\<rparr>) else Inr self)
      else if state self = ''list'' then
        (if k = K_ESCAPE then Inr (self\<lparr>running := False\<rparr>)
         else if k = K_UP then
           (if 0 < selected_index self then
              (let self1 = self\<lparr>selected_index := selected_index self - 1\<rparr>
               in if selected_index self1 < scroll_offset self1
                  then Inr (self1\<lparr>scroll_offset := selected_index self1\<rparr>) else Inr self1)
            else Inr self)
         else if k = K_DOWN then
           (if selected_index self < int (length (files_to_sync self)) - 1 then
              (let self1 = self\<lparr>selected_index := selected_index self + 1\<rparr>
               in if scroll_offset self1 + max_visible_items self1 \<le> selected_index self1
                  then Inr (self1\<lparr>scroll_offset :=
                              selected_index self1 - max_visible_items self1 + 1\<rparr>)
                  else Inr self1)
            else Inr self)
         else if k = K_SPACE then toggle_selected self
         else if k = K_d then view_diff fs self
         else if k = K_RETURN then
           (if list_ex selected (files_to_sync self) then Inr (self\<lparr>state := ''confirm''\<rparr>)
            else Inr self)
         else Inr self)
      else if state self = ''diff'' then
        (if k = K_ESCAPE then Inr (self\<lparr>state := ''list''\<rparr>)
         else if k = K_UP then
           (if 0 < diff_scroll self then Inr (self\<lparr>diff_scroll := diff_scroll self - 1\<rparr>)
            else Inr self)
         else if k = K_DOWN then
           (if diff_scroll self < max 0 (int (length (diff_lines self)) - 16)
            then Inr (self\<lparr>diff_scroll := diff_scroll self + 1\<rparr>) else Inr self)
         else Inr self)
      else if state self = ''confirm'' then
        (if k = K_ESCAPE then Inr (self\<lparr>state := ''list''\<rparr>)
         else if k = K_RETURN then Inr (self\<lparr>state := ''syncing''\<rparr>)
         else Inr self)
      else if state self = ''done'' then Inr (self\<lparr>running := False\<rparr>)
      else Inr self)"

definition handle_event :: "node \<Rightarrow> event \<Rightarrow> ui \<Rightarrow> exn + ui" where
  "handle_event fs ev self =
     (case ev of
        QUIT \<Rightarrow> Inr (self\<lparr>running := False\<rparr>)
      | KEYDOWN k \<Rightarrow> handle_key fs k self
      | OtherEvent \<Rightarrow> Inr self)"

text \<open>\<^verbatim>\<open>handle_input\<close>: the loop over the pending events.\<close>

fun handle_input :: "node \<Rightarrow> event list \<Rightarrow> ui \<Rightarrow> exn + ui" where
  "handle_input fs [] self = Inr self"
| "handle_input fs (ev # evs) self =
     (case handle_event fs ev self of
        Inl e \<Rightarrow> Inl e
      | Inr self' \<Rightarrow> handle_input fs evs self')"

section \<open>Example filesystems\<close>

text \<open>
  The overlay lives under \<^verbatim>\<open>/storage/roms/System\<close> and the target tree is the root
  directory, as in the defaults of \<^verbatim>\<open>main\<close>. In the examples the digest is the
  content itself.
\<close>

definition sys_root :: path where
  "sys_root = [''storage'', ''roms'', ''System'']"

definition overlay_tree :: node where
  "overlay_tree = Dir True [(''etc'', Dir True
       [(''foo.conf'', File True True 7 ''A''), (''bar.conf'', File True True 8 ''C''),
        (''same.conf'', File True True 9 ''S'')])]"

definition example_fs :: node where
  "example_fs = Dir True
     [(''storage'', Dir True [(''roms'', Dir True [(''System'', overlay_tree)])]),
      (''etc'', Dir True [(''foo.conf'', File True True 1 ''B''),
                          (''same.conf'', File True True 2 ''S'')])]"

definition example_ui :: ui where
  "example_ui = \<lparr>system_path = sys_root, root_path = [], files_to_sync = [],
     selected_index = 0, scroll_offset = 0, max_visible_items = 12, state = ''scan'',
     diff_lines = [], diff_scroll = 0, running = True\<rparr>"

definition foo_info :: file_info where
  "foo_info = \<lparr>src = sys_root @ [''etc'', ''foo.conf''], dest = [''etc'', ''foo.conf''],
     rel_path = ''etc/foo.conf'', status = ''modified'', selected = True\<rparr>"

definition bar_info :: file_info where
  "bar_info = \<lparr>src = sys_root @ [''etc'', ''bar.conf''], dest = [''etc'', ''bar.conf''],
     rel_path = ''etc/bar.conf'', status = ''new'', selected = True\<rparr>"

text \<open>An overlay whose two files cannot be read; one of the two targets cannot be read either.\<close>

definition unreadable_fs :: node where
  "unreadable_fs = Dir True
     [(''storage'', Dir True [(''roms'', Dir True [(''System'', Dir True [(''etc'', Dir True
         [(''foo.conf'', File False True 7 ''A''), (''bar.conf'', File False True 8 ''C'')])])])]),
      (''etc'', Dir True [(''foo.conf'', File True True 1 ''B''),
                          (''bar.conf'', File False True 2 ''D'')])]"

text \<open>A filesystem without the System folder, and one whose System folder is empty.\<close>

definition no_overlay_fs :: node where
  "no_overlay_fs = Dir True [(''storage'', Dir True [(''roms'', Dir True [])]),
                             (''etc'', Dir True [(''foo.conf'', File True True 1 ''B'')])]"

definition empty_overlay_fs :: node where
  "empty_overlay_fs = Dir True
     [(''storage'', Dir True [(''roms'', Dir True [(''System'', Dir True [])])]),
      (''etc'', Dir True [(''foo.conf'', File True True 1 ''B'')])]"



text \<open>The object after a scan of \<open>example_fs\<close>, showing the list.\<close>

definition list_ui :: ui where
  "list_ui = example_ui\<lparr>files_to_sync := [foo_info, bar_info], state := ''list''\<rparr>"

text \<open>The target path of the overlay file \<^verbatim>\<open>etc/foo.conf\<close> is a directory.\<close>

definition dir_target_fs :: node where
  "dir_target_fs = Dir True
     [(''storage'', Dir True [(''roms'', Dir True [(''System'', Dir True [(''etc'', Dir True
         [(''foo.conf'', File True True 7 ''A'')])])])]),
      (''etc'', Dir True [(''foo.conf'', Dir True [])])]"

definition dir_target_fs_synced :: node where
  "dir_target_fs_synced = Dir True
     [(''storage'', Dir True [(''roms'', Dir True [(''System'', Dir True [(''etc'', Dir True
         [(''foo.conf'', File True True 7 ''A'')])])])]),
      (''etc'', Dir True [(''foo.conf'', Dir True [(''foo.conf'', File True True 7 ''A'')])])]"




section \<open>Predicates of the properties\<close>

text \<open>
  What the scan records about a candidate: its status is the result of \<^verbatim>\<open>compare_files\<close>
  on its two paths, that status is not \<^verbatim>\<open>"identical"\<close>, and it is selected.
\<close>

definition scanned :: "(string \<Rightarrow> string) \<Rightarrow> node \<Rightarrow> file_info \<Rightarrow> bool" where
  "scanned md5 fs info =
     (status info = compare_files md5 fs (src info) (dest info)
      \<and> status info \<noteq> ''identical'' \<and> selected info)"

text \<open>Both paths are regular files that can be read, and their bytes are equal.\<close>

definition same_readable_content :: "node \<Rightarrow> path \<Rightarrow> path \<Rightarrow> bool" where
  "same_readable_content fs p q =
     (case (read_bytes fs p, read_bytes fs q) of
        (Inr c, Inr c') \<Rightarrow> c = c'
      | _ \<Rightarrow> False)"




















section \<open>Properties of the Hasher, the Comparator and the Scanner\<close>

lemma example_scan:
  "check_system_folder (\<lambda>c. c) example_fs example_ui
     = Inr (True, example_ui\<lparr>files_to_sync := [foo_info, bar_info]\<rparr>)"
  by code_simp

lemma file_hash_eq:
  "file_hash md5 fs p = Inr (case read_bytes fs p of Inl e \<Rightarrow> None | Inr c \<Rightarrow> Some (md5 c))"
  by (simp add: file_hash_def try_except_def split: sum.splits)

lemma compare_files_eq:
  "compare_files md5 fs s d =
     (if \<not> exists fs d then ''new''
      else if (case read_bytes fs s of Inl e \<Rightarrow> None | Inr c \<Rightarrow> Some (md5 c))
            = (case read_bytes fs d of Inl e \<Rightarrow> None | Inr c \<Rightarrow> Some (md5 c))
      then ''identical'' else ''modified'')"
  by (simp add: compare_files_def file_hash_eq try_except_def)

lemma walk_prefix:
  "(r, ds, fl) \<in> set (walk tp n) \<Longrightarrow> prefix tp r"
  "(r, ds, fl) \<in> set (walk_entries tp es) \<Longrightarrow> prefix tp r"
  by (induction tp n and tp es arbitrary: r ds fl and r ds fl rule: walk_walk_entries.induct)
     (auto split: if_splits dest: append_prefixD)

lemma os_walk_prefix: "(r, ds, fl) \<in> set (os_walk fs tp) \<Longrightarrow> prefix tp r"
  by (auto simp: os_walk_def split: sum.splits dest: walk_prefix)

lemma scan_file_total:
  "prefix (system_path self) root \<Longrightarrow> \<exists>acc'. scan_file md5 fs self root f acc = Inr acc'"
  by (simp add: scan_file_def relative_to_def Let_def)

lemma scan_file_scanned:
  "scan_file md5 fs self root f acc = Inr acc' \<Longrightarrow> list_all (scanned md5 fs) acc
     \<Longrightarrow> list_all (scanned md5 fs) acc'"
  by (auto simp: scan_file_def Let_def scanned_def split: sum.splits if_splits)

lemma scan_files_total:
  "prefix (system_path self) root \<Longrightarrow> \<exists>acc'. scan_files md5 fs self root fl acc = Inr acc'"
proof (induction fl arbitrary: acc)
  case Nil
  then show ?case by simp
next
  case (Cons f fl)
  from scan_file_total[OF Cons.prems] obtain acc1 where "scan_file md5 fs self root f acc = Inr acc1"
    by blast
  with Cons.IH[OF Cons.prems, of acc1] show ?case by simp
qed

lemma scan_files_scanned:
  "scan_files md5 fs self root fl acc = Inr acc' \<Longrightarrow> list_all (scanned md5 fs) acc
     \<Longrightarrow> list_all (scanned md5 fs) acc'"
  by (induction fl arbitrary: acc) (auto split: sum.splits dest: scan_file_scanned)

lemma scan_dirs_total:
  "\<forall>t\<in>set triples. prefix (system_path self) (fst t)
     \<Longrightarrow> \<exists>acc'. scan_dirs md5 fs self triples acc = Inr acc'"
proof (induction triples arbitrary: acc)
  case Nil
  then show ?case by simp
next
  case (Cons t triples)
  obtain root ds fl where t: "t = (root, ds, fl)" by (cases t) auto
  with Cons.prems have "prefix (system_path self) root" by simp
  from scan_files_total[OF this] obtain acc1 where
    "scan_files md5 fs self root fl acc = Inr acc1" by blast
  with Cons.IH[of acc1] Cons.prems t show ?case by simp
qed

lemma scan_dirs_scanned:
  "scan_dirs md5 fs self triples acc = Inr acc' \<Longrightarrow> list_all (scanned md5 fs) acc
     \<Longrightarrow> list_all (scanned md5 fs) acc'"
proof (induction triples arbitrary: acc)
  case Nil
  then show ?case by simp
next
  case (Cons t triples)
  obtain root ds fl where t: "t = (root, ds, fl)" by (cases t) auto
  with Cons show ?case by (auto split: sum.splits dest: scan_files_scanned)
qed

lemma check_system_folder_result:
  "\<exists>found. check_system_folder md5 fs self =
     (if exists fs (system_path self) then Inr (True, self\<lparr>files_to_sync := found\<rparr>)
      else Inr (False, self))
     \<and> list_all (scanned md5 fs) found"
proof (cases "exists fs (system_path self)")
  case False
  then show ?thesis by (auto simp: check_system_folder_def intro: exI[of _ "[]"])
next
  case True
  have "\<forall>t\<in>set (os_walk fs (system_path self)). prefix (system_path self) (fst t)"
    by (auto dest: os_walk_prefix)
  from scan_dirs_total[OF this] obtain found where
    f: "scan_dirs md5 fs self (os_walk fs (system_path self)) [] = Inr found" by blast
  from scan_dirs_scanned[OF f] have "list_all (scanned md5 fs) found" by simp
  with True f show ?thesis by (auto simp: check_system_folder_def)
qed

lemma compare_files_cases:
  "compare_files md5 fs s d = ''new'' \<or> compare_files md5 fs s d = ''identical''
     \<or> compare_files md5 fs s d = ''modified''"
  by (simp add: compare_files_eq)

lemma scanned_status:
  "scanned md5 fs info \<Longrightarrow>
     (status info = ''new'' \<or> status info = ''modified'') \<and> \<not> prefix ''error: '' (status info)"
  using compare_files_cases[of md5 fs "src info" "dest info"] by (auto simp: scanned_def)

text \<open>
  C10. \<^verbatim>\<open>file_hash\<close> never raises: a failure to open or read the file gives \<^verbatim>\<open>None\<close>.
  So \<^verbatim>\<open>compare_files\<close> returns one of \<^verbatim>\<open>"new"\<close>, \<^verbatim>\<open>"identical"\<close>, \<^verbatim>\<open>"modified"\<close> (its
  \<^verbatim>\<open>except\<close> branch is never taken), and after a scan every candidate has the status
  \<^verbatim>\<open>"new"\<close> or \<^verbatim>\<open>"modified"\<close>, none a status that starts with \<^verbatim>\<open>"error: "\<close>.
\<close>

theorem hash_total_no_error_status:
  "file_hash md5 fs p = Inr (case read_bytes fs p of Inl e \<Rightarrow> None | Inr c \<Rightarrow> Some (md5 c))
   \<and> (compare_files md5 fs s d = ''new'' \<or> compare_files md5 fs s d = ''identical''
        \<or> compare_files md5 fs s d = ''modified'')
   \<and> (\<forall>self'. check_system_folder md5 fs self = Inr (True, self') \<longrightarrow>
         list_all (\<lambda>info. (status info = ''new'' \<or> status info = ''modified'')
                           \<and> \<not> prefix ''error: '' (status info)) (files_to_sync self'))"
proof (intro conjI allI impI)
  show "file_hash md5 fs p = Inr (case read_bytes fs p of Inl e \<Rightarrow> None | Inr c \<Rightarrow> Some (md5 c))"
    by (rule file_hash_eq)
  show "compare_files md5 fs s d = ''new'' \<or> compare_files md5 fs s d = ''identical''
        \<or> compare_files md5 fs s d = ''modified''"
    by (rule compare_files_cases)
next
  fix self'
  assume a: "check_system_folder md5 fs self = Inr (True, self')"
  from check_system_folder_result[of md5 fs self] obtain found where
    f: "check_system_folder md5 fs self =
          (if exists fs (system_path self) then Inr (True, self\<lparr>files_to_sync := found\<rparr>)
           else Inr (False, self))"
    and g: "list_all (scanned md5 fs) found" by blast
  from a f have "files_to_sync self' = found" by (auto split: if_splits)
  with g show "list_all (\<lambda>info. (status info = ''new'' \<or> status info = ''modified'')
                           \<and> \<not> prefix ''error: '' (status info)) (files_to_sync self')"
    by (auto simp: list_all_iff dest: scanned_status)
qed

theorem hash_total_no_error_status_witness:
  "file_hash (\<lambda>c. c) unreadable_fs (sys_root @ [''etc'', ''foo.conf'']) = Inr None
   \<and> check_system_folder (\<lambda>c. c) unreadable_fs example_ui
       = Inr (True, example_ui\<lparr>files_to_sync := [foo_info]\<rparr>)
   \<and> list_all (\<lambda>info. (status info = ''new'' \<or> status info = ''modified'')
                           \<and> \<not> prefix ''error: '' (status info)) [foo_info]"
proof -
  have e: "check_system_folder (\<lambda>c. c) unreadable_fs example_ui
       = Inr (True, example_ui\<lparr>files_to_sync := [foo_info]\<rparr>)"
    by code_simp
  have r: "read_bytes unreadable_fs (sys_root @ [''etc'', ''foo.conf''])
      = Inl (OSError EACCES (sys_root @ [''etc'', ''foo.conf'']))"
    by code_simp
  from hash_total_no_error_status[of "\<lambda>c. c" unreadable_fs "sys_root @ [''etc'', ''foo.conf'']"
      "[]" "[]" example_ui] e r
  show ?thesis by simp
qed

text \<open>
  C1. What \<^verbatim>\<open>compare_files\<close> does when the target exists and hashing the overlay file or
  hashing the target fails: the result is \<^verbatim>\<open>"identical"\<close> when both fail, and
  \<^verbatim>\<open>"modified"\<close> when one fails. The failure is not reported as an error status.
\<close>

theorem hash_failure_masked:
  "exists fs d \<Longrightarrow> isl (read_bytes fs s) \<or> isl (read_bytes fs d) \<Longrightarrow>
     compare_files md5 fs s d
       = (if isl (read_bytes fs s) \<and> isl (read_bytes fs d) then ''identical'' else ''modified'')"
  by (auto simp: compare_files_eq isl_def split: sum.splits)

theorem hash_failure_masked_witness:
  "exists unreadable_fs [''etc'', ''foo.conf'']
   \<and> read_bytes unreadable_fs (sys_root @ [''etc'', ''foo.conf''])
       = Inl (OSError EACCES (sys_root @ [''etc'', ''foo.conf'']))
   \<and> read_bytes unreadable_fs [''etc'', ''foo.conf''] = Inr ''B''
   \<and> compare_files (\<lambda>c. c) unreadable_fs (sys_root @ [''etc'', ''foo.conf'']) [''etc'', ''foo.conf'']
       = ''modified''
   \<and> exists unreadable_fs [''etc'', ''bar.conf'']
   \<and> read_bytes unreadable_fs (sys_root @ [''etc'', ''bar.conf''])
       = Inl (OSError EACCES (sys_root @ [''etc'', ''bar.conf'']))
   \<and> read_bytes unreadable_fs [''etc'', ''bar.conf'']
       = Inl (OSError EACCES [''etc'', ''bar.conf''])
   \<and> compare_files (\<lambda>c. c) unreadable_fs (sys_root @ [''etc'', ''bar.conf'']) [''etc'', ''bar.conf'']
       = ''identical''"
proof -
  have x1: "exists unreadable_fs [''etc'', ''foo.conf'']" by code_simp
  have r1: "read_bytes unreadable_fs (sys_root @ [''etc'', ''foo.conf''])
       = Inl (OSError EACCES (sys_root @ [''etc'', ''foo.conf'']))" by code_simp
  have d1: "read_bytes unreadable_fs [''etc'', ''foo.conf''] = Inr ''B''" by code_simp
  have x2: "exists unreadable_fs [''etc'', ''bar.conf'']" by code_simp
  have r2: "read_bytes unreadable_fs (sys_root @ [''etc'', ''bar.conf''])
       = Inl (OSError EACCES (sys_root @ [''etc'', ''bar.conf'']))" by code_simp
  have d2: "read_bytes unreadable_fs [''etc'', ''bar.conf'']
       = Inl (OSError EACCES [''etc'', ''bar.conf''])" by code_simp
  from hash_failure_masked[OF x1, of "sys_root @ [''etc'', ''foo.conf'']" "\<lambda>c. c"]
       hash_failure_masked[OF x2, of "sys_root @ [''etc'', ''bar.conf'']" "\<lambda>c. c"]
  show ?thesis using x1 r1 d1 x2 r2 d2 by simp
qed

text \<open>
  C4. \<^verbatim>\<open>check_system_folder\<close> returns \<^verbatim>\<open>False\<close> (and leaves the object as it is) when
  the overlay root does not exist; for an overlay root that is an empty directory it
  returns \<^verbatim>\<open>True\<close> with an empty list of candidates. It never raises, and its result
  is \<^verbatim>\<open>True\<close> exactly when the overlay root exists.
\<close>

theorem scan_not_found_or_empty:
  "(\<not> exists fs (system_path self) \<longrightarrow> check_system_folder md5 fs self = Inr (False, self))
   \<and> (stat fs (system_path self) = Inr (Dir w []) \<longrightarrow>
        check_system_folder md5 fs self = Inr (True, self\<lparr>files_to_sync := []\<rparr>))
   \<and> (\<exists>self'. check_system_folder md5 fs self = Inr (exists fs (system_path self), self'))"
proof (intro conjI impI)
  assume "\<not> exists fs (system_path self)"
  then show "check_system_folder md5 fs self = Inr (False, self)"
    by (simp add: check_system_folder_def)
next
  assume "stat fs (system_path self) = Inr (Dir w [])"
  then show "check_system_folder md5 fs self = Inr (True, self\<lparr>files_to_sync := []\<rparr>)"
    by (simp add: check_system_folder_def exists_def os_walk_def)
next
  from check_system_folder_result[of md5 fs self]
  show "\<exists>self'. check_system_folder md5 fs self = Inr (exists fs (system_path self), self')"
    by (auto split: if_splits)
qed

theorem scan_not_found_or_empty_witness:
  "\<not> exists no_overlay_fs (system_path example_ui)
   \<and> check_system_folder (\<lambda>c. c) no_overlay_fs example_ui = Inr (False, example_ui)
   \<and> stat empty_overlay_fs (system_path example_ui) = Inr (Dir True [])
   \<and> check_system_folder (\<lambda>c. c) empty_overlay_fs example_ui
       = Inr (True, example_ui\<lparr>files_to_sync := []\<rparr>)"
proof -
  have a: "\<not> exists no_overlay_fs (system_path example_ui)" by code_simp
  have b: "stat empty_overlay_fs (system_path example_ui) = Inr (Dir True [])" by code_simp
  from scan_not_found_or_empty[of no_overlay_fs example_ui "\<lambda>c. c" True]
       scan_not_found_or_empty[of empty_overlay_fs example_ui "\<lambda>c. c" True] a b
  show ?thesis by simp
qed

lemma same_content_identical:
  "same_readable_content fs s d \<Longrightarrow> compare_files md5 fs s d = ''identical''"
  by (auto simp: same_readable_content_def compare_files_eq exists_def read_bytes_def
           split: sum.splits node.splits if_splits)

lemma scanned_not_same:
  "scanned md5 fs info \<Longrightarrow> \<not> same_readable_content fs (src info) (dest info)"
  using same_content_identical[of fs "src info" "dest info" md5] by (auto simp: scanned_def)

text \<open>
  C3. For two readable files with the same bytes \<^verbatim>\<open>compare_files\<close> returns
  \<^verbatim>\<open>"identical"\<close>, and no candidate of a scan is such a pair.
\<close>

theorem identical_never_candidate:
  "(same_readable_content fs s d \<longrightarrow> compare_files md5 fs s d = ''identical'')
   \<and> (\<forall>self'. check_system_folder md5 fs self = Inr (True, self') \<longrightarrow>
         list_all (\<lambda>info. \<not> same_readable_content fs (src info) (dest info))
           (files_to_sync self'))"
proof (intro conjI allI impI)
  assume "same_readable_content fs s d"
  then show "compare_files md5 fs s d = ''identical''" by (rule same_content_identical)
next
  fix self'
  assume a: "check_system_folder md5 fs self = Inr (True, self')"
  from check_system_folder_result[of md5 fs self] obtain found where
    f: "check_system_folder md5 fs self =
          (if exists fs (system_path self) then Inr (True, self\<lparr>files_to_sync := found\<rparr>)
           else Inr (False, self))"
    and g: "list_all (scanned md5 fs) found" by blast
  from a f have e: "files_to_sync self' = found" by (auto split: if_splits)
  with g show "list_all (\<lambda>info. \<not> same_readable_content fs (src info) (dest info))
           (files_to_sync self')"
    by (auto simp: list_all_iff dest: scanned_not_same)
qed

theorem identical_never_candidate_witness:
  "same_readable_content example_fs (sys_root @ [''etc'', ''same.conf'']) [''etc'', ''same.conf'']
   \<and> compare_files (\<lambda>c. c) example_fs (sys_root @ [''etc'', ''same.conf'']) [''etc'', ''same.conf'']
       = ''identical''
   \<and> check_system_folder (\<lambda>c. c) example_fs example_ui
       = Inr (True, example_ui\<lparr>files_to_sync := [foo_info, bar_info]\<rparr>)
   \<and> list_all (\<lambda>info. \<not> same_readable_content example_fs (src info) (dest info))
        [foo_info, bar_info]"
proof -
  have a: "same_readable_content example_fs (sys_root @ [''etc'', ''same.conf'']) [''etc'', ''same.conf'']"
    by code_simp
  from identical_never_candidate[of example_fs "sys_root @ [''etc'', ''same.conf'']"
         "[''etc'', ''same.conf'']" "\<lambda>c. c" example_ui] a example_scan
  show ?thesis by simp
qed

text \<open>
  C7. When the target path does not exist, \<^verbatim>\<open>compare_files\<close> returns \<^verbatim>\<open>"new"\<close> and
  \<^verbatim>\<open>get_file_diff\<close> returns exactly one line, the notice \<^verbatim>\<open>New file: <name>\<close>, and no
  unified diff.
\<close>

theorem new_file_status_and_notice:
  "\<not> exists fs d \<Longrightarrow>
     compare_files md5 fs s d = ''new'' \<and> get_file_diff fs s d = [''New file: '' @ name s]"
  by (simp add: compare_files_def get_file_diff_def try_except_def)

theorem new_file_status_and_notice_witness:
  "\<not> exists example_fs (dest bar_info)
   \<and> compare_files (\<lambda>c. c) example_fs (src bar_info) (dest bar_info) = ''new''
   \<and> get_file_diff example_fs (src bar_info) (dest bar_info) = [''New file: bar.conf'']"
proof -
  have a: "\<not> exists example_fs (dest bar_info)" by code_simp
  have n: "name (src bar_info) = ''bar.conf''" by code_simp
  from new_file_status_and_notice[OF a, of "\<lambda>c. c" "src bar_info"] a n
  show ?thesis by simp
qed

section \<open>Properties of the SyncExecutor and the SelectionModel\<close>






lemma view_diff_files:
  "view_diff fs self = Inr self' \<Longrightarrow> files_to_sync self' = files_to_sync self"
  by (auto simp: view_diff_def Let_def split: sum.splits)

lemma handle_key_files:
  "handle_key fs k self = Inr self' \<Longrightarrow> \<not> (k = K_SPACE \<and> state self = ''list'')
     \<Longrightarrow> files_to_sync self' = files_to_sync self"
  unfolding handle_key_def
  by (auto simp: Let_def split: if_splits dest: view_diff_files)

lemma py_index_less: "py_index xs i = Inr n \<Longrightarrow> n < length xs"
  by (auto simp: py_index_def Let_def split: if_splits)

lemma toggle_selected_result:
  assumes "toggle_selected self = Inr self'"
  shows "\<exists>n<length (files_to_sync self).
        self' = self\<lparr>files_to_sync := (files_to_sync self)
                 [n := (files_to_sync self ! n)\<lparr>selected := \<not> selected (files_to_sync self ! n)\<rparr>]\<rparr>"
proof -
  from assms obtain n where n: "py_index (files_to_sync self) (selected_index self) = Inr n"
    by (auto simp: toggle_selected_def split: sum.splits)
  with assms have "self' = self\<lparr>files_to_sync := (files_to_sync self)
                 [n := (files_to_sync self ! n)\<lparr>selected := \<not> selected (files_to_sync self ! n)\<rparr>]\<rparr>"
    by (simp add: toggle_selected_def)
  with py_index_less[OF n] show ?thesis by blast
qed

text \<open>
  C9. \<^verbatim>\<open>sync_selected_files\<close> leaves the object, and with it every candidate, as it
  was. A key press changes the list of candidates only when it is \<^verbatim>\<open>K_SPACE\<close> in the
  state \<^verbatim>\<open>"list"\<close>, and that toggle replaces one candidate by itself with the
  \<^verbatim>\<open>selected\<close> flag negated.
\<close>

theorem apply_keeps_candidates:
  "fst (snd (sync_selected_files self fs)) = self
   \<and> (\<forall>self'. handle_key fs k self = Inr self' \<and> \<not> (k = K_SPACE \<and> state self = ''list'')
         \<longrightarrow> files_to_sync self' = files_to_sync self)
   \<and> (\<forall>self'. toggle_selected self = Inr self' \<longrightarrow>
         (\<exists>n<length (files_to_sync self).
            self' = self\<lparr>files_to_sync := (files_to_sync self)
                 [n := (files_to_sync self ! n)
                         \<lparr>selected := \<not> selected (files_to_sync self ! n)\<rparr>]\<rparr>))"
proof (intro conjI allI impI)
  show "fst (snd (sync_selected_files self fs)) = self"
    by (simp add: sync_selected_files_def split: prod.splits)
next
  fix self'
  assume "handle_key fs k self = Inr self' \<and> \<not> (k = K_SPACE \<and> state self = ''list'')"
  then show "files_to_sync self' = files_to_sync self" by (auto dest: handle_key_files)
next
  fix self'
  assume "toggle_selected self = Inr self'"
  then show "\<exists>n<length (files_to_sync self).
            self' = self\<lparr>files_to_sync := (files_to_sync self)
                 [n := (files_to_sync self ! n)
                         \<lparr>selected := \<not> selected (files_to_sync self ! n)\<rparr>]\<rparr>"
    by (rule toggle_selected_result)
qed

theorem apply_keeps_candidates_witness:
  "fst (snd (sync_selected_files list_ui example_fs)) = list_ui
   \<and> fst (sync_selected_files list_ui example_fs) = (2, 0)
   \<and> handle_key example_fs K_DOWN list_ui = Inr (list_ui\<lparr>selected_index := 1\<rparr>)
   \<and> files_to_sync (list_ui\<lparr>selected_index := 1\<rparr>) = files_to_sync list_ui
   \<and> toggle_selected list_ui
       = Inr (list_ui\<lparr>files_to_sync := [foo_info\<lparr>selected := False\<rparr>, bar_info]\<rparr>)"
proof -
  have a: "fst (sync_selected_files list_ui example_fs) = (2, 0)" by code_simp
  have b: "handle_key example_fs K_DOWN list_ui = Inr (list_ui\<lparr>selected_index := 1\<rparr>)"
    by code_simp
  have c: "toggle_selected list_ui
       = Inr (list_ui\<lparr>files_to_sync := [foo_info\<lparr>selected := False\<rparr>, bar_info]\<rparr>)"
    by code_simp
  from apply_keeps_candidates[of list_ui example_fs K_DOWN] a b c
  show ?thesis by simp
qed

section \<open>Properties of the DiffGenerator\<close>


section \<open>Round trip\<close>

text \<open>
  What the two filesystem steps of \<^verbatim>\<open>sync_file\<close> do to the rest of the tree: after
  \<open>write_file\<close> the written path holds the new node and every other regular file is as
  before; \<open>mkdir_parents\<close> keeps every regular file.
\<close>

lemma stat_write_same:
  "write_file fs p new = Inr fs' \<Longrightarrow> stat fs' p = Inr new"
proof (induction fs p new arbitrary: fs' rule: write_file.induct)
  case (3 w es x new)
  then show ?case
    by (auto simp: update_conv' split: option.splits node.splits if_splits)
next
  case (4 w es x y ys new)
  then show ?case
    by (auto simp: update_conv' split: option.splits sum.splits)
qed simp_all

lemma stat_write_other:
  "write_file fs p new = Inr fs' \<Longrightarrow> stat fs q = Inr (File r w t c) \<Longrightarrow> q \<noteq> p
     \<Longrightarrow> stat fs' q = Inr (File r w t c)"
proof (induction fs p new arbitrary: fs' q rule: write_file.induct)
  case (3 w' es x new)
  then show ?case
    by (cases q; cases "tl q")
       (auto simp: update_conv' split: option.splits node.splits if_splits)
next
  case (4 w' es x y ys new)
  then show ?case
    by (cases q) (auto simp: update_conv' split: option.splits sum.splits if_splits)
qed simp_all

lemma stat_mkdir_file:
  "mkdir_parents fs p = Inr fs' \<Longrightarrow> stat fs q = Inr (File r w t c)
     \<Longrightarrow> stat fs' q = Inr (File r w t c)"
proof (induction fs p arbitrary: fs' q rule: mkdir_parents.induct)
  case (4 w' es x xs)
  then show ?case
    by (cases q) (auto simp: update_conv' split: option.splits sum.splits if_splits)
qed auto

text \<open>
  When the target is a regular file, a successful \<^verbatim>\<open>sync_file\<close> is followed by
  \<^verbatim>\<open>"identical"\<close>: the round trip holds for these candidates.
\<close>

lemma round_trip_regular_target:
  assumes t: "stat fs (dest info) = Inr (File r w t c)"
    and s: "sync_file fs info = (True, fs')"
  shows "compare_files md5 fs' (src info) (dest info) = ''identical''"
proof -
  from s obtain fs1 where m: "mkdir_parents fs (parent (dest info)) = Inr fs1"
    and c: "copy2 fs1 (src info) (dest info) = Inr fs'"
    by (auto simp: sync_file_def split: sum.splits)
  from stat_mkdir_file[OF m t] have t1: "stat fs1 (dest info) = Inr (File r w t c)" .
  then have nd: "\<not> isdir fs1 (dest info)" and ex: "exists fs1 (dest info)"
    by (simp_all add: isdir_def exists_def)
  from c nd obtain r' w' t' c' where
    sf: "stat fs1 (src info) = Inr (File r' w' t' c')" and rd: "r'"
    and wr: "write_file fs1 (dest info) (File r' w' t' c') = Inr fs'"
    and ne: "src info \<noteq> dest info"
    using ex
    by (auto simp: copy2_def Let_def exists_def split: sum.splits node.splits if_splits)
  from stat_write_same[OF wr] have d': "stat fs' (dest info) = Inr (File r' w' t' c')" .
  from stat_write_other[OF wr sf ne] have s': "stat fs' (src info) = Inr (File r' w' t' c')" .
  from d' s' rd show ?thesis
    by (simp add: compare_files_eq exists_def read_bytes_def)
qed

text \<open>
  C6. A candidate that the scan calls \<^verbatim>\<open>"modified"\<close> because its target is a directory:
  \<^verbatim>\<open>sync_file\<close> succeeds (the file is copied into that directory), and a fresh
  \<^verbatim>\<open>compare_files\<close> on the same pair returns \<^verbatim>\<open>"modified"\<close> again.
\<close>

theorem round_trip_directory_target:
  "compare_files md5 dir_target_fs (src foo_info) (dest foo_info) = ''modified''
   \<and> sync_file dir_target_fs foo_info = (True, dir_target_fs_synced)
   \<and> compare_files md5 dir_target_fs_synced (src foo_info) (dest foo_info) = ''modified''"
proof -
  have s: "sync_file dir_target_fs foo_info = (True, dir_target_fs_synced)" by code_simp
  have x1: "exists dir_target_fs (dest foo_info)" by code_simp
  have x2: "exists dir_target_fs_synced (dest foo_info)" by code_simp
  have a1: "read_bytes dir_target_fs (src foo_info) = Inr ''A''" by code_simp
  have a2: "read_bytes dir_target_fs_synced (src foo_info) = Inr ''A''" by code_simp
  have b1: "read_bytes dir_target_fs (dest foo_info) = Inl (OSError EISDIR (dest foo_info))"
    by code_simp
  have b2: "read_bytes dir_target_fs_synced (dest foo_info) = Inl (OSError EISDIR (dest foo_info))"
    by code_simp
  show ?thesis using s x1 x2 a1 a2 b1 b2 by (simp add: compare_files_eq)
qed

section \<open>The blocks of the line matcher tile the two lists\<close>




















section \<open>Equal lists of lines have an empty diff\<close>













section \<open>Orientation of the diff\<close>






























end
